theory Spec2Isabelle
  imports Complex_Main
begin

section \<open>Python strings\<close>

text \<open>
  A Python \<open>str\<close> is a sequence of Unicode code points; it is modelled as a list of
  natural numbers, one per code point. Source literals are written as HOL strings and
  converted by \<open>py\<close>; the newline character is code point 10, the space is 32.
\<close>

type_synonym pystr = "nat list"

definition py :: "string \<Rightarrow> pystr" where
  "py s = map of_char s"

text \<open>\<open>sep.join(xs)\<close> for a list of strings.\<close>

fun join :: "pystr \<Rightarrow> pystr list \<Rightarrow> pystr" where
  "join sep [] = []"
| "join sep [x] = x"
| "join sep (x # y # ys) = x @ sep @ join sep (y # ys)"

text \<open>
  Whitespace as \<open>str.isspace\<close>, \<open>str.split()\<close>, \<open>str.strip()\<close> and the
  regular-expression class \<open>\s\<close> (on \<open>str\<close> patterns) understand it: the Unicode
  white-space code points, which below 128 are 9 to 13, 28 to 31 and 32.
\<close>

definition isspace :: "nat \<Rightarrow> bool" where
  "isspace c \<longleftrightarrow>
     (9 \<le> c \<and> c \<le> 13) \<or> (28 \<le> c \<and> c \<le> 32) \<or> c = 133 \<or> c = 160 \<or> c = 5760
     \<or> (8192 \<le> c \<and> c \<le> 8202) \<or> c = 8232 \<or> c = 8233 \<or> c = 8239 \<or> c = 8287
     \<or> c = 12288"

text \<open>
  \<open>text.split()\<close>: the maximal runs of non-whitespace characters, in order. The first
  argument of \<open>split_from\<close> is the token read so far.
\<close>

fun split_from :: "pystr \<Rightarrow> pystr \<Rightarrow> pystr list" where
  "split_from cur [] = (if cur = [] then [] else [cur])"
| "split_from cur (c # cs) =
     (if isspace c
      then (if cur = [] then split_from [] cs else cur # split_from [] cs)
      else split_from (cur @ [c]) cs)"

definition str_split :: "pystr \<Rightarrow> pystr list" where
  "str_split text = split_from [] text"

text \<open>\<open>text.strip()\<close>: leading and trailing whitespace removed.\<close>

definition strip :: "pystr \<Rightarrow> pystr" where
  "strip text = rev (dropWhile isspace (rev (dropWhile isspace text)))"

section \<open>Exceptions as values\<close>

text \<open>
  A raised exception is the left summand of the result. \<open>KeyError\<close> carries the missing
  key, \<open>IndexError\<close> is an index out of range, \<open>External\<close> is any exception raised
  inside an external library (the embedding model, the vector index, the tokenizer, the
  generator). Modelled from the spec: \<open>MalformedEntityError\<close> is the error class that
  the specification names for a malformed corpus entry; no statement of the source
  raises it, and no function below returns it.
\<close>

datatype error = KeyError string | IndexError | External string | MalformedEntityError

definition ebind :: "error + 'a \<Rightarrow> ('a \<Rightarrow> error + 'b) \<Rightarrow> error + 'b" where
  "ebind m f = (case m of Inl e \<Rightarrow> Inl e | Inr v \<Rightarrow> f v)"

definition getitem :: "string \<Rightarrow> 'a option \<Rightarrow> error + 'a" where
  "getitem key field = (case field of None \<Rightarrow> Inl (KeyError key) | Some v \<Rightarrow> Inr v)"

text \<open>
  \<open>xs[i]\<close> on a Python list or a numpy row: a negative index counts from the end, an
  index out of range raises \<open>IndexError\<close>.
\<close>

definition getidx :: "'a list \<Rightarrow> int \<Rightarrow> error + 'a" where
  "getidx xs i =
     (let n = int (length xs)
      in if 0 \<le> i \<and> i < n then Inr (xs ! nat i)
         else if - n \<le> i \<and> i < 0 then Inr (xs ! nat (n + i))
         else Inl IndexError)"

section \<open>Step 2: simple text cleaner\<close>

text \<open>
  \<open>clean\<close> takes the Unicode normalisation \<open>unicodedata.normalize("NFKD", _)\<close> as a
  parameter \<open>nfkd\<close>: its tables are not part of the program. The argument is an
  \<open>option\<close>, since the guard \<open>if not text\<close> also accepts \<open>None\<close>.
  After \<open>encode("ascii", "ignore").decode()\<close> the text is ASCII, so \<open>lower\<close> and the
  class \<open>\w\<close> are given on ASCII characters, where they are \<open>A-Z \<rightarrow> a-z\<close> and
  \<open>[a-zA-Z0-9_]\<close>. \<open>PUNCT_RE.sub(" ", _)\<close> replaces each character matching
  \<open>[^\w\s]\<close> by a space; \<open>re.sub(r"\s+", " ", _)\<close> replaces each maximal run of
  whitespace by one space (the flag of \<open>sub_ws\<close> says that the run has already been
  replaced).
\<close>

definition is_ascii :: "nat \<Rightarrow> bool" where
  "is_ascii c \<longleftrightarrow> c < 128"

definition lower :: "nat \<Rightarrow> nat" where
  "lower c = (if 65 \<le> c \<and> c \<le> 90 then c + 32 else c)"

definition is_word :: "nat \<Rightarrow> bool" where
  "is_word c \<longleftrightarrow> (48 \<le> c \<and> c \<le> 57) \<or> (65 \<le> c \<and> c \<le> 90) \<or> c = 95 \<or> (97 \<le> c \<and> c \<le> 122)"

definition PUNCT_RE_sub :: "pystr \<Rightarrow> pystr" where
  "PUNCT_RE_sub text = map (\<lambda>c. if \<not> is_word c \<and> \<not> isspace c then 32 else c) text"

fun sub_ws :: "bool \<Rightarrow> pystr \<Rightarrow> pystr" where
  "sub_ws in_run [] = []"
| "sub_ws in_run (c # cs) =
     (if isspace c
      then (if in_run then sub_ws True cs else 32 # sub_ws True cs)
      else c # sub_ws False cs)"

definition clean :: "(pystr \<Rightarrow> pystr) \<Rightarrow> pystr option \<Rightarrow> pystr" where
  "clean nfkd text =
     (case text of
        None \<Rightarrow> []
      | Some t \<Rightarrow>
          if t = [] then []
          else let t1 = nfkd t;
                   t2 = filter is_ascii t1;
                   t3 = map lower t2;
                   t4 = PUNCT_RE_sub t3
               in strip (sub_ws False t4))"

text \<open>
  A sample normalisation for concrete evaluation: it decomposes three code points the way
  NFKD does (e-acute, the ligature fi, the no-break space) and leaves the others alone.
\<close>

definition nfkd_sample :: "pystr \<Rightarrow> pystr" where
  "nfkd_sample s = concat (map (\<lambda>c. if c = 233 then [101, 769] else if c = 64257 then [102, 105]
                                   else if c = 160 then [32] else [c]) s)"

section \<open>Step 5: flatten each menu item into an indexable text chunk\<close>

text \<open>
  The knowledge base is a list of dictionaries read from JSON. A dictionary of the corpus
  is a record of optional fields: \<open>None\<close> is an absent key, so that \<open>d["k"]\<close> is
  \<open>getitem\<close> and raises \<open>KeyError\<close> on an absent key. The values have the types of the
  corpus format: strings, a list of strings or \<open>null\<close> for \<open>special_features\<close>, a list of
  items for \<open>items\<close>; the type of a price is left open. The metadata dictionary built for
  each chunk is the record \<open>chunk_meta\<close>.
\<close>

record 'p item =
  category :: "pystr option"
  item_name :: "pystr option"
  description :: "pystr option"
  special_features :: "pystr list option option"
  product_url :: "pystr option"
  price :: "'p option"

record 'p restaurant =
  restaurant_name :: "pystr option"
  location :: "pystr option"
  items :: "'p item list option"

record 'p chunk_meta =
  meta_restaurant :: pystr
  meta_category :: pystr
  meta_item_name :: pystr
  meta_url :: pystr
  meta_price :: 'p
  meta_features :: "pystr list option"

definition txt_raw :: "pystr \<Rightarrow> pystr \<Rightarrow> pystr \<Rightarrow> pystr \<Rightarrow> pystr \<Rightarrow> pystr list option \<Rightarrow> pystr" where
  "txt_raw rname rloc cat name desc feats =
     rname @ [32] @ rloc @ [32] @ cat @ [32]
     @ name @ [32] @ desc @ [32]
     @ join [32] (case feats of None \<Rightarrow> [] | Some fs \<Rightarrow> fs)"

definition item_body ::
  "(pystr \<Rightarrow> pystr) \<Rightarrow> pystr \<Rightarrow> pystr \<Rightarrow> 'p item
   \<Rightarrow> pystr list \<times> 'p chunk_meta list \<Rightarrow> error + (pystr list \<times> 'p chunk_meta list)" where
  "item_body nfkd rname rloc it acc =
     ebind (getitem ''category'' (category it)) (\<lambda>cat.
     ebind (getitem ''item_name'' (item_name it)) (\<lambda>name.
     ebind (getitem ''description'' (description it)) (\<lambda>desc.
     ebind (getitem ''special_features'' (special_features it)) (\<lambda>feats.
       let texts' = fst acc @ [clean nfkd (Some (txt_raw rname rloc cat name desc feats))]
       in
     ebind (getitem ''category'' (category it)) (\<lambda>mcat.
     ebind (getitem ''item_name'' (item_name it)) (\<lambda>mname.
     ebind (getitem ''product_url'' (product_url it)) (\<lambda>url.
     ebind (getitem ''price'' (price it)) (\<lambda>pr.
     ebind (getitem ''special_features'' (special_features it)) (\<lambda>mfeats.
       Inr (texts',
            snd acc @ [\<lparr>meta_restaurant = rname, meta_category = mcat,
                        meta_item_name = mname, meta_url = url, meta_price = pr,
                        meta_features = mfeats\<rparr>]))))))))))"

fun items_loop ::
  "(pystr \<Rightarrow> pystr) \<Rightarrow> pystr \<Rightarrow> pystr \<Rightarrow> 'p item list
   \<Rightarrow> pystr list \<times> 'p chunk_meta list \<Rightarrow> error + (pystr list \<times> 'p chunk_meta list)" where
  "items_loop nfkd rname rloc [] acc = Inr acc"
| "items_loop nfkd rname rloc (it # its) acc =
     ebind (item_body nfkd rname rloc it acc) (items_loop nfkd rname rloc its)"

fun restaurants_loop ::
  "(pystr \<Rightarrow> pystr) \<Rightarrow> 'p restaurant list
   \<Rightarrow> pystr list \<times> 'p chunk_meta list \<Rightarrow> error + (pystr list \<times> 'p chunk_meta list)" where
  "restaurants_loop nfkd [] acc = Inr acc"
| "restaurants_loop nfkd (r # rs) acc =
     ebind (getitem ''restaurant_name'' (restaurant_name r)) (\<lambda>rname.
     ebind (getitem ''location'' (location r)) (\<lambda>rloc.
     ebind (getitem ''items'' (items r)) (\<lambda>its.
     ebind (items_loop nfkd rname rloc its acc) (restaurants_loop nfkd rs))))"

definition flatten ::
  "(pystr \<Rightarrow> pystr) \<Rightarrow> 'p restaurant list \<Rightarrow> error + (pystr list \<times> 'p chunk_meta list)" where
  "flatten nfkd restaurants = restaurants_loop nfkd restaurants ([], [])"

text \<open>
  The specification side of the flattening: an item or an entity that has all its keys,
  the catalog items of a corpus in declaration order, each with its entity, the chunk and
  the metadata derived from one catalog item, and an entity in which a required field
  (entity name, location, item category or item name) is absent.
\<close>


definition item_ok :: "'p item \<Rightarrow> bool" where
  "item_ok it \<longleftrightarrow> category it \<noteq> None \<and> item_name it \<noteq> None \<and> description it \<noteq> None
     \<and> special_features it \<noteq> None \<and> product_url it \<noteq> None \<and> price it \<noteq> None"

definition restaurant_ok :: "'p restaurant \<Rightarrow> bool" where
  "restaurant_ok r \<longleftrightarrow> restaurant_name r \<noteq> None \<and> location r \<noteq> None
     \<and> (case items r of None \<Rightarrow> False | Some its \<Rightarrow> list_all item_ok its)"

definition well_formed :: "'p restaurant list \<Rightarrow> bool" where
  "well_formed rs = list_all restaurant_ok rs"

definition catalog_items :: "'p restaurant list \<Rightarrow> ('p restaurant \<times> 'p item) list" where
  "catalog_items rs =
     concat (map (\<lambda>r. map (Pair r) (case items r of None \<Rightarrow> [] | Some its \<Rightarrow> its)) rs)"

definition chunk_of :: "(pystr \<Rightarrow> pystr) \<Rightarrow> 'p restaurant \<times> 'p item \<Rightarrow> pystr" where
  "chunk_of nfkd ri =
     clean nfkd (Some (txt_raw (the (restaurant_name (fst ri))) (the (location (fst ri)))
        (the (category (snd ri))) (the (item_name (snd ri))) (the (description (snd ri)))
        (the (special_features (snd ri)))))"

definition meta_of :: "'p restaurant \<times> 'p item \<Rightarrow> 'p chunk_meta" where
  "meta_of ri =
     \<lparr>meta_restaurant = the (restaurant_name (fst ri)),
      meta_category = the (category (snd ri)),
      meta_item_name = the (item_name (snd ri)),
      meta_url = the (product_url (snd ri)),
      meta_price = the (price (snd ri)),
      meta_features = the (special_features (snd ri))\<rparr>"

definition missing_required :: "'p restaurant \<Rightarrow> bool" where
  "missing_required r \<longleftrightarrow> restaurant_name r = None \<or> location r = None
     \<or> (case items r of None \<Rightarrow> False
         | Some its \<Rightarrow> list_ex (\<lambda>it. category it = None \<or> item_name it = None) its)"

text \<open>Sample corpus entries for concrete evaluation.\<close>

definition salad :: "nat item" where
  "salad = \<lparr>category = Some (py ''Salads''), item_name = Some (py ''Garden Salad''),
            description = Some (py ''No meat!''), special_features = Some None,
            product_url = Some (py ''/salad''), price = Some 5\<rparr>"

definition burger :: "nat item" where
  "burger = \<lparr>category = Some (py ''Burgers''), item_name = Some (py ''Big Mac''),
             description = Some (py ''Beef''), special_features = Some (Some [py ''Hot'', py ''New'']),
             product_url = Some (py ''/mac''), price = Some 9\<rparr>"

definition diner :: "nat restaurant" where
  "diner = \<lparr>restaurant_name = Some (py ''Diner''), location = Some (py ''Pune''),
            items = Some [salad, burger]\<rparr>"

definition no_location :: "nat restaurant" where
  "no_location = \<lparr>restaurant_name = Some (py ''Cafe''), location = None,
                  items = Some [salad]\<rparr>"

definition no_item_name :: "nat restaurant" where
  "no_item_name = \<lparr>restaurant_name = Some (py ''Cafe''), location = Some (py ''Goa''),
                   items = Some [salad, burger\<lparr>item_name := None\<rparr>]\<rparr>"

section \<open>Step 8: minimal history\<close>

text \<open>
  Class \<open>Conversation\<close>: the field \<open>self.max\<close> is called \<open>max_turns\<close> here (the name of
  the constructor's argument), \<open>self.memory\<close> is the list of (user, assistant) pairs.
  \<open>add\<close> appends and then pops the front element once when the list is longer than
  \<open>max\<close>; the list is never empty at the \<open>pop(0)\<close>, which is therefore \<open>tl\<close>.
\<close>

record conversation =
  max_turns :: int
  memory :: "(pystr \<times> pystr) list"

definition Conversation :: "int \<Rightarrow> conversation" where
  "Conversation n = \<lparr>max_turns = n, memory = []\<rparr>"

definition add :: "conversation \<Rightarrow> pystr \<Rightarrow> pystr \<Rightarrow> conversation" where
  "add self user assistant =
     (let mem = memory self @ [(user, assistant)]
      in if int (length mem) > max_turns self
         then self\<lparr>memory := tl mem\<rparr>
         else self\<lparr>memory := mem\<rparr>)"

definition history_line :: "pystr \<times> pystr \<Rightarrow> pystr" where
  "history_line t = (case t of (u, a) \<Rightarrow> py ''User: '' @ u @ [10] @ py ''Assistant: '' @ a)"

definition format_history :: "conversation \<Rightarrow> pystr" where
  "format_history self =
     (if memory self = [] then []
      else join [10] (map history_line (memory self)) @ [10])"

text \<open>A sequence of \<open>add\<close> calls, oldest call first.\<close>

definition add_all :: "conversation \<Rightarrow> (pystr \<times> pystr) list \<Rightarrow> conversation" where
  "add_all self turns = foldl (\<lambda>c t. add c (fst t) (snd t)) self turns"

section \<open>Step 9: prompt with context and history\<close>

definition SYSTEM :: pystr where
  "SYSTEM = py ''You answer questions about restaurant menus using ONLY the CONTEXT. ''
          @ py ''If the answer cannot be found, say you do not know.''"

definition make_prompt :: "pystr \<Rightarrow> pystr list \<Rightarrow> pystr \<Rightarrow> pystr" where
  "make_prompt query ctx_chunks history =
     (let ctx = join [10] ctx_chunks
      in SYSTEM @ [10, 10]
         @ history
         @ py ''CONTEXT:'' @ [10] @ ctx @ [10, 10]
         @ py ''Question: '' @ query @ [10] @ py ''Answer:'')"

section \<open>Step 10: decode helpers\<close>

text \<open>
  \<open>dedupe_tokens\<close>: \<open>out\<close> starts as \<open>[toks[0]]\<close> when there is a token and the loop
  runs over \<open>toks[1:]\<close>, so \<open>out\<close> is never empty at \<open>out[-1]\<close>, which is \<open>last out\<close>.
\<close>

fun dedupe_loop :: "pystr list \<Rightarrow> pystr list \<Rightarrow> pystr list" where
  "dedupe_loop out [] = out"
| "dedupe_loop out (tok # toks) =
     dedupe_loop (if tok \<noteq> last out then out @ [tok] else out) toks"

definition dedupe_tokens :: "pystr \<Rightarrow> pystr" where
  "dedupe_tokens text =
     (let toks = str_split text;
          out = (if toks \<noteq> [] then [hd toks] else [])
      in join [32] (dedupe_loop out (tl toks)))"

section \<open>Predicates used in the proofs\<close>

text \<open>A token: a non-empty string without whitespace.\<close>

definition is_token :: "pystr \<Rightarrow> bool" where
  "is_token t \<longleftrightarrow> t \<noteq> [] \<and> (\<forall>c \<in> set t. \<not> isspace c)"

text \<open>
  The shape of a cleaned string: lower-case ASCII word characters and single spaces, with
  no space at either end.
\<close>

definition clean_char :: "nat \<Rightarrow> bool" where
  "clean_char c \<longleftrightarrow> c = 32 \<or> (is_ascii c \<and> lower c = c \<and> is_word c)"

definition single_spaced :: "pystr \<Rightarrow> bool" where
  "single_spaced s \<longleftrightarrow> successively (\<lambda>a b. \<not> (a = 32 \<and> b = 32)) s"

definition normalized :: "pystr \<Rightarrow> bool" where
  "normalized s \<longleftrightarrow>
     (\<forall>c \<in> set s. clean_char c) \<and> single_spaced s
     \<and> (s = [] \<or> (hd s \<noteq> 32 \<and> last s \<noteq> 32))"

section \<open>Properties of the flattening\<close>

lemma item_body_ok:
  "item_ok it \<Longrightarrow> restaurant_name r = Some rname \<Longrightarrow> location r = Some rloc \<Longrightarrow>
   item_body nfkd rname rloc it (T, M) = Inr (T @ [chunk_of nfkd (r, it)], M @ [meta_of (r, it)])"
  by (auto simp: item_ok_def item_body_def ebind_def getitem_def chunk_of_def meta_of_def)

lemma item_body_bad:
  "\<not> item_ok it \<Longrightarrow> \<exists>k. item_body nfkd rname rloc it acc = Inl (KeyError k)"
  by (auto simp: item_ok_def item_body_def ebind_def getitem_def Let_def split: option.splits)

lemma items_loop_ok:
  "list_all item_ok its \<Longrightarrow> restaurant_name r = Some rname \<Longrightarrow> location r = Some rloc \<Longrightarrow>
   items_loop nfkd rname rloc its (T, M)
     = Inr (T @ map (chunk_of nfkd) (map (Pair r) its), M @ map meta_of (map (Pair r) its))"
proof (induction its arbitrary: T M)
  case Nil
  show ?case by simp
next
  case (Cons it its)
  have ok: "item_ok it" and rest: "list_all item_ok its" using Cons.prems(1) by simp_all
  show ?case
    using item_body_ok [OF ok Cons.prems(2) Cons.prems(3), of nfkd T M]
          Cons.IH [OF rest Cons.prems(2) Cons.prems(3)]
    by (simp add: ebind_def)
qed

lemma items_loop_bad:
  "\<not> list_all item_ok its \<Longrightarrow> \<exists>k. items_loop nfkd rname rloc its acc = Inl (KeyError k)"
proof (induction its arbitrary: acc)
  case Nil
  then show ?case by simp
next
  case (Cons it its)
  show ?case
  proof (cases "item_ok it")
    case False
    then obtain k where "item_body nfkd rname rloc it acc = Inl (KeyError k)"
      using item_body_bad by blast
    then show ?thesis by (simp add: ebind_def)
  next
    case True
    then have "\<not> list_all item_ok its" using Cons.prems by simp
    then have ih: "\<And>acc'. \<exists>k. items_loop nfkd rname rloc its acc' = Inl (KeyError k)"
      using Cons.IH by blast
    show ?thesis
    proof (cases "item_body nfkd rname rloc it acc")
      case (Inl e)
      then show ?thesis using item_body_bad [of it nfkd rname rloc acc] True
        by (auto simp: ebind_def item_body_def getitem_def item_ok_def Let_def split: option.splits)
    next
      case (Inr acc')
      then show ?thesis using ih [of acc'] by (simp add: ebind_def)
    qed
  qed
qed

lemma restaurants_loop_ok:
  "list_all restaurant_ok rs \<Longrightarrow>
   restaurants_loop nfkd rs (T, M)
     = Inr (T @ map (chunk_of nfkd) (catalog_items rs), M @ map meta_of (catalog_items rs))"
proof (induction rs arbitrary: T M)
  case Nil
  show ?case by (simp add: catalog_items_def)
next
  case (Cons r rs)
  have ok: "restaurant_ok r" and rest: "list_all restaurant_ok rs" using Cons.prems by simp_all
  obtain rname rloc its where f: "restaurant_name r = Some rname" "location r = Some rloc"
      "items r = Some its" "list_all item_ok its"
    using ok by (auto simp: restaurant_ok_def split: option.splits)
  have c: "catalog_items (r # rs) = map (Pair r) its @ catalog_items rs"
    using f(3) by (simp add: catalog_items_def)
  show ?case
    using items_loop_ok [OF f(4) f(1) f(2), of nfkd T M] Cons.IH [OF rest] f(1,2,3)
    by (simp add: ebind_def getitem_def c)
qed

lemma restaurants_loop_bad:
  "\<not> list_all restaurant_ok rs \<Longrightarrow> \<exists>k. restaurants_loop nfkd rs acc = Inl (KeyError k)"
proof (induction rs arbitrary: acc)
  case Nil
  then show ?case by simp
next
  case (Cons r rs)
  show ?case
  proof (cases "restaurant_ok r")
    case True
    then obtain rname rloc its where f: "restaurant_name r = Some rname"
        "location r = Some rloc" "items r = Some its" "list_all item_ok its"
      by (auto simp: restaurant_ok_def split: option.splits)
    have "\<not> list_all restaurant_ok rs" using Cons.prems True by simp
    then have ih: "\<And>acc'. \<exists>k. restaurants_loop nfkd rs acc' = Inl (KeyError k)"
      using Cons.IH by blast
    obtain T M where a: "acc = (T, M)" by (cases acc)
    show ?thesis
      using items_loop_ok [OF f(4) f(1) f(2), of nfkd T M] f(1,2,3) a
            ih [of "(T @ map (chunk_of nfkd) (map (Pair r) its), M @ map meta_of (map (Pair r) its))"]
      by (simp add: ebind_def getitem_def)
  next
    case False
    show ?thesis
    proof (cases "restaurant_name r")
      case None
      then show ?thesis by (simp add: ebind_def getitem_def)
    next
      case (Some rname)
      note n = this
      show ?thesis
      proof (cases "location r")
        case None
        then show ?thesis using n by (simp add: ebind_def getitem_def)
      next
        case (Some rloc)
        note l = this
        show ?thesis
        proof (cases "items r")
          case None
          then show ?thesis using n l by (simp add: ebind_def getitem_def)
        next
          case (Some its)
          then have "\<not> list_all item_ok its" using False n l by (simp add: restaurant_ok_def)
          then obtain k where "items_loop nfkd rname rloc its acc = Inl (KeyError k)"
            using items_loop_bad by blast
          then show ?thesis using n l Some by (simp add: ebind_def getitem_def)
        qed
      qed
    qed
  qed
qed

lemma missing_not_ok: "missing_required r \<Longrightarrow> \<not> restaurant_ok r"
  by (auto simp: missing_required_def restaurant_ok_def item_ok_def list_ex_iff list_all_iff
           split: option.splits)

text \<open>
  C4. For every well-formed corpus the flattening succeeds with a chunk list and a metadata
  list of equal length, one entry per catalog item in declaration order; at every
  position the chunk and the metadata are derived from the same catalog item, and the
  metadata carries the name of its entity, its category and its item name.
\<close>

theorem flatten_alignment:
  assumes "well_formed rs"
  shows "\<exists>texts meta. flatten nfkd rs = Inr (texts, meta)
     \<and> length texts = length meta \<and> length texts = length (catalog_items rs)
     \<and> texts = map (chunk_of nfkd) (catalog_items rs)
     \<and> meta = map meta_of (catalog_items rs)
     \<and> (\<forall>i < length texts.
          texts ! i = chunk_of nfkd (catalog_items rs ! i)
          \<and> meta ! i = meta_of (catalog_items rs ! i)
          \<and> meta_restaurant (meta ! i) = the (restaurant_name (fst (catalog_items rs ! i)))
          \<and> meta_category (meta ! i) = the (category (snd (catalog_items rs ! i)))
          \<and> meta_item_name (meta ! i) = the (item_name (snd (catalog_items rs ! i))))"
proof -
  have f: "flatten nfkd rs
             = Inr (map (chunk_of nfkd) (catalog_items rs), map meta_of (catalog_items rs))"
    using restaurants_loop_ok [of rs nfkd "[]" "[]"] assms
    by (simp add: flatten_def well_formed_def)
  show ?thesis unfolding f by (simp add: meta_of_def)
qed

lemma diner_ok: "well_formed [diner]"
  by (simp add: well_formed_def restaurant_ok_def item_ok_def diner_def salad_def burger_def)

lemma diner_items: "catalog_items [diner] = [(diner, salad), (diner, burger)]"
  by (simp add: catalog_items_def diner_def)

lemma salad_raw:
  "txt_raw (py ''Diner'') (py ''Pune'') (py ''Salads'') (py ''Garden Salad'') (py ''No meat!'') None
     = py ''Diner Pune Salads Garden Salad No meat! ''"
  by (simp add: txt_raw_def py_def)

lemma burger_raw:
  "txt_raw (py ''Diner'') (py ''Pune'') (py ''Burgers'') (py ''Big Mac'') (py ''Beef'')
       (Some [py ''Hot'', py ''New''])
     = py ''Diner Pune Burgers Big Mac Beef Hot New''"
  by (simp add: txt_raw_def py_def)

lemma salad_clean:
  "clean nfkd_sample (Some (py ''Diner Pune Salads Garden Salad No meat! ''))
     = py ''diner pune salads garden salad no meat''"
  by (simp add: clean_def nfkd_sample_def is_ascii_def lower_def PUNCT_RE_sub_def is_word_def
        isspace_def strip_def py_def)

lemma burger_clean:
  "clean nfkd_sample (Some (py ''Diner Pune Burgers Big Mac Beef Hot New''))
     = py ''diner pune burgers big mac beef hot new''"
  by (simp add: clean_def nfkd_sample_def is_ascii_def lower_def PUNCT_RE_sub_def is_word_def
        isspace_def strip_def py_def)

lemma salad_chunk: "chunk_of nfkd_sample (diner, salad) = py ''diner pune salads garden salad no meat''"
  unfolding chunk_of_def by (simp add: diner_def salad_def salad_raw salad_clean)

lemma burger_chunk: "chunk_of nfkd_sample (diner, burger) = py ''diner pune burgers big mac beef hot new''"
  unfolding chunk_of_def by (simp add: diner_def burger_def burger_raw burger_clean)

theorem flatten_alignment_witness:
  "well_formed [diner]
   \<and> flatten nfkd_sample [diner]
       = Inr ([py ''diner pune salads garden salad no meat'',
               py ''diner pune burgers big mac beef hot new''],
              [\<lparr>meta_restaurant = py ''Diner'', meta_category = py ''Salads'',
                meta_item_name = py ''Garden Salad'',
                meta_url = py ''/salad'', meta_price = 5, meta_features = None\<rparr>,
               \<lparr>meta_restaurant = py ''Diner'', meta_category = py ''Burgers'',
                meta_item_name = py ''Big Mac'',
                meta_url = py ''/mac'', meta_price = 9,
                meta_features = Some [py ''Hot'', py ''New'']\<rparr>])"
proof -
  have "flatten nfkd_sample [diner]
          = Inr (map (chunk_of nfkd_sample) (catalog_items [diner]),
                 map meta_of (catalog_items [diner]))"
    using flatten_alignment [OF diner_ok, of nfkd_sample] by auto
  then have "flatten nfkd_sample [diner]
          = Inr ([py ''diner pune salads garden salad no meat'',
                  py ''diner pune burgers big mac beef hot new''],
                 [meta_of (diner, salad), meta_of (diner, burger)])"
    by (simp add: diner_items salad_chunk burger_chunk)
  moreover have "meta_of (diner, salad) = \<lparr>meta_restaurant = py ''Diner'', meta_category = py ''Salads'',
                meta_item_name = py ''Garden Salad'',
                meta_url = py ''/salad'', meta_price = 5, meta_features = None\<rparr>"
    by (simp add: meta_of_def diner_def salad_def)
  moreover have "meta_of (diner, burger) = \<lparr>meta_restaurant = py ''Diner'', meta_category = py ''Burgers'',
                meta_item_name = py ''Big Mac'',
                meta_url = py ''/mac'', meta_price = 9,
                meta_features = Some [py ''Hot'', py ''New'']\<rparr>"
    by (simp add: meta_of_def diner_def burger_def)
  ultimately show ?thesis using diner_ok by simp
qed

text \<open>
  C9, as the code has it. A corpus with an entry in which the entity name, the location,
  an item category or an item name is absent is never flattened silently: the flattening
  fails, and the failure is Python's \<open>KeyError\<close> for an absent key.
\<close>

theorem flatten_missing_field:
  assumes "r \<in> set rs" "missing_required r"
  shows "\<exists>k. flatten nfkd rs = Inl (KeyError k)"
proof -
  have "\<not> list_all restaurant_ok rs"
    using assms missing_not_ok by (auto simp: list_all_iff)
  then show ?thesis unfolding flatten_def by (rule restaurants_loop_bad)
qed

theorem flatten_missing_field_witness:
  "no_item_name \<in> set [diner, no_item_name] \<and> missing_required no_item_name
   \<and> (\<exists>k. flatten nfkd_sample [diner, no_item_name] = Inl (KeyError k))"
proof -
  have a: "no_item_name \<in> set [diner, no_item_name]" by simp
  have b: "missing_required no_item_name"
    by (simp add: missing_required_def no_item_name_def salad_def burger_def)
  show ?thesis using a b flatten_missing_field [OF a b, of nfkd_sample] by blast
qed

text \<open>
  C9 as stated fails on the error class: an entry without a location makes the flattening
  fail with \<open>KeyError\<close> for the key \<open>location\<close>, not with a \<open>MalformedEntityError\<close>.
\<close>

theorem flatten_missing_field_counterexample:
  "missing_required no_location
   \<and> flatten nfkd_sample [no_location] = Inl (KeyError ''location'')
   \<and> flatten nfkd_sample [no_location] \<noteq> Inl MalformedEntityError"
  by (simp add: missing_required_def no_location_def flatten_def ebind_def getitem_def)

section \<open>Properties of the conversation memory\<close>

lemma max_turns_add [simp]: "max_turns (add c u a) = max_turns c"
  by (simp add: add_def Let_def)

lemma max_turns_add_all [simp]: "max_turns (add_all c ts) = max_turns c"
  unfolding add_all_def by (induction ts rule: rev_induct) simp_all

lemma add_all_snoc: "add_all c (ts @ [t]) = add (add_all c ts) (fst t) (snd t)"
  by (simp add: add_all_def)

lemma memory_add_all:
  assumes "1 \<le> N"
  shows "memory (add_all (Conversation N) ts) = drop (length ts - nat N) ts"
proof (induction ts rule: rev_induct)
  case Nil
  show ?case by (simp add: add_all_def Conversation_def)
next
  case (snoc t ts)
  let ?c = "add_all (Conversation N) ts"
  have mx: "max_turns ?c = N" by (simp add: Conversation_def)
  show ?case
  proof (cases "length ts < nat N")
    case True
    then have "memory ?c = ts" using snoc by simp
    moreover have "\<not> int (length (ts @ [t])) > N" using True by simp
    ultimately show ?thesis using True mx
      by (simp add: add_all_snoc add_def Let_def)
  next
    case False
    then have len: "length (drop (length ts - nat N) ts) = nat N" by simp
    have gt: "int (length (memory ?c @ [(fst t, snd t)])) > N"
      using snoc len assms by simp
    have ne: "drop (length ts - nat N) ts \<noteq> []" using len assms by auto
    have "memory (add ?c (fst t) (snd t)) = tl (memory ?c @ [t])"
      using gt mx by (simp add: add_def Let_def)
    also have "\<dots> = tl (drop (length ts - nat N) ts) @ [t]"
      using ne snoc by simp
    also have "\<dots> = drop (Suc (length ts - nat N)) ts @ [t]"
      by (simp add: tl_drop drop_Suc)
    also have "\<dots> = drop (length (ts @ [t]) - nat N) (ts @ [t])"
      using False assms by (simp add: Suc_diff_le)
    finally show ?thesis by (simp add: add_all_snoc)
  qed
qed

text \<open>
  C5. Starting from an empty conversation memory of capacity \<open>N \<ge> 1\<close>, after any finite
  sequence of \<open>add\<close> calls (hence after each call of a longer sequence, whose prefix it
  is) the number of stored turns is \<open>min N (number of adds)\<close>, so never more than \<open>N\<close>,
  and the stored turns are exactly the most recent ones, oldest first.
\<close>

theorem memory_bound:
  assumes "1 \<le> N"
  shows "int (length (memory (add_all (Conversation N) ts))) \<le> N
       \<and> length (memory (add_all (Conversation N) ts)) = min (nat N) (length ts)
       \<and> memory (add_all (Conversation N) ts)
           = drop (length ts - min (nat N) (length ts)) ts"
proof -
  have m: "memory (add_all (Conversation N) ts) = drop (length ts - nat N) ts"
    using assms by (rule memory_add_all)
  have d: "length ts - min (nat N) (length ts) = length ts - nat N"
    by (simp add: min_def)
  show ?thesis using assms unfolding m d by auto
qed

theorem memory_bound_witness:
  "(1::int) \<le> 2
   \<and> memory (add_all (Conversation 2)
        [(py ''q1'', py ''a1''), (py ''q2'', py ''a2''), (py ''q3'', py ''a3'')])
     = [(py ''q2'', py ''a2''), (py ''q3'', py ''a3'')]
   \<and> int (length (memory (add_all (Conversation 2)
        [(py ''q1'', py ''a1''), (py ''q2'', py ''a2''), (py ''q3'', py ''a3'')]))) \<le> 2"
  using memory_bound [of 2 "[(py ''q1'', py ''a1''), (py ''q2'', py ''a2''), (py ''q3'', py ''a3'')]"]
  by simp

section \<open>Properties of \<open>dedupe_tokens\<close>\<close>

lemma dedupe_loop_remdups:
  "out \<noteq> [] \<Longrightarrow> dedupe_loop out toks = butlast out @ remdups_adj (last out # toks)"
proof (induction toks arbitrary: out)
  case Nil
  then show ?case by simp
next
  case (Cons tok toks)
  show ?case
  proof (cases "tok = last out")
    case True
    then show ?thesis using Cons by simp
  next
    case False
    then show ?thesis using Cons.IH [of "out @ [tok]"] Cons.prems by simp
  qed
qed

lemma dedupe_tokens_remdups: "dedupe_tokens text = join [32] (remdups_adj (str_split text))"
proof (cases "str_split text")
  case Nil
  then show ?thesis by (simp add: dedupe_tokens_def)
next
  case (Cons t ts)
  then show ?thesis by (simp add: dedupe_tokens_def dedupe_loop_remdups)
qed

lemma split_from_token:
  "\<forall>c \<in> set t. \<not> isspace c \<Longrightarrow> split_from cur (t @ r) = split_from (cur @ t) r"
  by (induction t arbitrary: cur) simp_all

lemma split_from_tokens:
  "\<forall>c \<in> set cur. \<not> isspace c \<Longrightarrow> t \<in> set (split_from cur s) \<Longrightarrow> is_token t"
proof (induction s arbitrary: cur)
  case Nil
  then show ?case by (auto simp: is_token_def split: if_splits)
next
  case (Cons c cs)
  show ?case
  proof (cases "isspace c")
    case True
    have e: "t \<in> set (split_from [] cs) \<Longrightarrow> is_token t"
      using Cons.IH [of "[]"] by simp
    show ?thesis using Cons.prems True e
      by (auto simp: is_token_def split: if_splits)
  next
    case False
    then show ?thesis using Cons.IH [of "cur @ [c]"] Cons.prems by simp
  qed
qed

lemma str_split_tokens: "t \<in> set (str_split s) \<Longrightarrow> is_token t"
  unfolding str_split_def using split_from_tokens [of "[]"] by simp

lemma str_split_join:
  "\<forall>t \<in> set ts. is_token t \<Longrightarrow> str_split (join [32] ts) = ts"
proof (induction ts rule: induct_list012)
  case 1
  then show ?case by (simp add: str_split_def)
next
  case (2 x)
  then show ?case using split_from_token [of x "[]" "[]"]
    by (simp add: str_split_def is_token_def)
next
  case (3 x y ys)
  have sp: "isspace 32" by (simp add: isspace_def)
  have x: "x \<noteq> []" "\<forall>c \<in> set x. \<not> isspace c" using 3(3) by (simp_all add: is_token_def)
  have "split_from [] (x @ 32 # join [32] (y # ys)) = split_from x (32 # join [32] (y # ys))"
    using split_from_token [OF x(2), of "[]"] by simp
  also have "\<dots> = x # split_from [] (join [32] (y # ys))"
    using sp x(1) by simp
  also have "\<dots> = x # y # ys"
    using 3(2) 3(3) by (simp add: str_split_def)
  finally show ?case by (simp add: str_split_def)
qed

text \<open>
  C6. \<open>dedupe_tokens\<close> splits on whitespace, keeps a token only if it differs from the
  token kept just before it (\<open>remdups_adj\<close> on the token list, with equality of
  strings) and joins the kept tokens with single spaces. So the tokens of the result are
  the tokens of the input with adjacent repetitions collapsed: the token sequence
  a, a, b, b, b, c gives a, b, c, and a token sequence without adjacent equal tokens is
  returned as it is.
\<close>

theorem dedupe_tokens_collapse:
  "dedupe_tokens text = join [32] (remdups_adj (str_split text))
   \<and> str_split (dedupe_tokens text) = remdups_adj (str_split text)
   \<and> (str_split text = [py ''a'', py ''a'', py ''b'', py ''b'', py ''b'', py ''c'']
        \<longrightarrow> str_split (dedupe_tokens text) = [py ''a'', py ''b'', py ''c''])
   \<and> (distinct_adj (str_split text) \<longrightarrow> str_split (dedupe_tokens text) = str_split text)"
proof -
  have j: "dedupe_tokens text = join [32] (remdups_adj (str_split text))"
    by (rule dedupe_tokens_remdups)
  have "\<forall>t \<in> set (remdups_adj (str_split text)). is_token t"
    using str_split_tokens by auto
  then have s: "str_split (dedupe_tokens text) = remdups_adj (str_split text)"
    unfolding j by (rule str_split_join)
  have e: "str_split text = [py ''a'', py ''a'', py ''b'', py ''b'', py ''b'', py ''c'']
        \<longrightarrow> str_split (dedupe_tokens text) = [py ''a'', py ''b'', py ''c'']"
    unfolding s by (simp add: py_def)
  have d: "distinct_adj (str_split text) \<longrightarrow> str_split (dedupe_tokens text) = str_split text"
    unfolding s by (simp add: distinct_adj_altdef)
  show ?thesis using j s e d by blast
qed

theorem dedupe_tokens_collapse_witness:
  "str_split (py ''a a b  b b c'') = [py ''a'', py ''a'', py ''b'', py ''b'', py ''b'', py ''c'']
   \<and> str_split (dedupe_tokens (py ''a a b  b b c'')) = [py ''a'', py ''b'', py ''c'']
   \<and> dedupe_tokens (py ''a a b  b b c'') = py ''a b c''
   \<and> distinct_adj (str_split (py ''x y  x''))
   \<and> str_split (dedupe_tokens (py ''x y  x'')) = str_split (py ''x y  x'')
   \<and> dedupe_tokens (py ''x y  x'') = py ''x y x''"
  using dedupe_tokens_collapse [of "py ''a a b  b b c''"]
        dedupe_tokens_collapse [of "py ''x y  x''"]
  by (simp add: str_split_def py_def isspace_def)

section \<open>Properties of \<open>clean\<close>\<close>

lemma isspace_32 [simp]: "isspace 32" by (simp add: isspace_def)

lemma word_not_space: "is_word c \<Longrightarrow> \<not> isspace c"
  by (auto simp: is_word_def isspace_def)

lemma sub_ws_hd: "sub_ws True s \<noteq> [] \<Longrightarrow> \<not> isspace (hd (sub_ws True s))"
  by (induction s) (auto split: if_splits)

lemma sub_ws_set: "c \<in> set (sub_ws b s) \<Longrightarrow> c = 32 \<or> (c \<in> set s \<and> \<not> isspace c)"
  by (induction s arbitrary: b) (auto split: if_splits)

lemma sub_ws_single: "single_spaced (sub_ws b s)"
proof (induction s arbitrary: b)
  case Nil
  show ?case by (simp add: single_spaced_def)
next
  case (Cons c cs)
  show ?case
  proof (cases "isspace c")
    case True
    have "sub_ws True cs \<noteq> [] \<Longrightarrow> hd (sub_ws True cs) \<noteq> 32"
      using sub_ws_hd [of cs] isspace_32 by metis
    then have "single_spaced (32 # sub_ws True cs)"
      using Cons [of True] by (auto simp: single_spaced_def successively_Cons)
    then show ?thesis using True Cons [of True] by simp
  next
    case False
    then have "c \<noteq> 32" using isspace_32 by auto
    then show ?thesis using False Cons [of False]
      by (auto simp: single_spaced_def successively_Cons)
  qed
qed

lemma sub_ws_fixed:
  "\<forall>c \<in> set s. isspace c \<longrightarrow> c = 32 \<Longrightarrow> single_spaced s
   \<Longrightarrow> (b \<longrightarrow> s = [] \<or> hd s \<noteq> 32) \<Longrightarrow> sub_ws b s = s"
proof (induction s arbitrary: b)
  case Nil
  show ?case by simp
next
  case (Cons c cs)
  have ss: "single_spaced cs" using Cons.prems(2)
    by (auto simp: single_spaced_def successively_Cons)
  show ?case
  proof (cases "isspace c")
    case True
    then have c: "c = 32" using Cons.prems(1) by simp
    then have nb: "\<not> b" using Cons.prems(3) by auto
    have "cs = [] \<or> hd cs \<noteq> 32" using Cons.prems(2) c
      by (auto simp: single_spaced_def successively_Cons)
    then have "sub_ws True cs = cs" using Cons.IH [of True] Cons.prems(1) ss by simp
    then show ?thesis using True c nb by simp
  next
    case False
    have "sub_ws False cs = cs" using Cons.IH [of False] Cons.prems(1) ss by simp
    then show ?thesis using False by simp
  qed
qed

lemma last_dropWhile: "dropWhile P xs \<noteq> [] \<Longrightarrow> last (dropWhile P xs) = last xs"
  by (induction xs) (auto split: if_splits)

lemma single_spaced_dropWhile: "single_spaced s \<Longrightarrow> single_spaced (dropWhile P s)"
proof -
  assume a: "single_spaced s"
  have "s = takeWhile P s @ dropWhile P s" by simp
  then have "single_spaced (takeWhile P s @ dropWhile P s)" using a by simp
  then show ?thesis unfolding single_spaced_def successively_append_iff by simp
qed

lemma single_spaced_rev: "single_spaced (rev s) = single_spaced s"
  unfolding single_spaced_def successively_rev by (simp add: conj_commute)

lemma strip_single: "single_spaced s \<Longrightarrow> single_spaced (strip s)"
  unfolding strip_def
  by (simp add: single_spaced_rev single_spaced_dropWhile)

lemma strip_set: "c \<in> set (strip s) \<Longrightarrow> c \<in> set s"
  unfolding strip_def by (auto dest!: set_dropWhileD)

lemma strip_ends:
  assumes "strip s \<noteq> []"
  shows "\<not> isspace (hd (strip s)) \<and> \<not> isspace (last (strip s))"
proof -
  let ?ys = "dropWhile isspace s"
  let ?zs = "dropWhile isspace (rev ?ys)"
  have z: "?zs \<noteq> []" using assms by (simp add: strip_def)
  have y: "?ys \<noteq> []"
  proof
    assume e: "?ys = []"
    have "?zs = []" unfolding e by simp
    with z show False by simp
  qed
  have "last (strip s) = hd ?zs" using z by (simp add: strip_def last_rev)
  then have l: "\<not> isspace (last (strip s))" using hd_dropWhile [OF z] by simp
  have "hd (strip s) = last ?zs" using z by (simp add: strip_def hd_rev)
  also have "\<dots> = last (rev ?ys)" using z by (rule last_dropWhile)
  also have "\<dots> = hd ?ys" using y by (simp add: last_rev)
  finally have "\<not> isspace (hd (strip s))" using hd_dropWhile [OF y] by simp
  then show ?thesis using l by simp
qed

lemma strip_fixed:
  assumes "s = [] \<or> (\<not> isspace (hd s) \<and> \<not> isspace (last s))"
  shows "strip s = s"
proof (cases "s = []")
  case True
  then show ?thesis by (simp add: strip_def)
next
  case False
  then have h: "\<not> isspace (hd s)" and l: "\<not> isspace (last s)" using assms by simp_all
  have 1: "dropWhile isspace s = s" using h by (simp add: dropWhile_eq_self_iff)
  have "hd (rev s) = last s" using False by (simp add: hd_rev)
  then have 2: "dropWhile isspace (rev s) = rev s" using l by (simp add: dropWhile_eq_self_iff)
  show ?thesis by (simp add: strip_def 1 2)
qed

lemma clean_char_space: "clean_char c \<Longrightarrow> isspace c \<Longrightarrow> c = 32"
  by (auto simp: clean_char_def dest: word_not_space)

lemma lower_lower: "lower (lower c) = lower c"
  by (simp add: lower_def)

lemma lower_ascii: "is_ascii c \<Longrightarrow> is_ascii (lower c)"
  by (auto simp: lower_def is_ascii_def)

lemma pipeline_chars:
  assumes "c \<in> set (PUNCT_RE_sub (map lower (filter is_ascii t)))" "\<not> isspace c"
  shows "clean_char c"
proof -
  have "c \<in> (\<lambda>d. if \<not> is_word d \<and> \<not> isspace d then 32 else d)
               ` set (map lower (filter is_ascii t))"
    using assms(1) by (simp only: PUNCT_RE_sub_def set_map)
  then obtain d where c: "c = (if \<not> is_word d \<and> \<not> isspace d then 32 else d)"
    and d: "d \<in> set (map lower (filter is_ascii t))"
    by (rule imageE)
  show ?thesis
  proof (cases "\<not> is_word d \<and> \<not> isspace d")
    case True
    then show ?thesis using c by (simp add: clean_char_def)
  next
    case False
    then have cd: "c = d" using c by auto
    then have w: "is_word c" using False assms(2) by auto
    have "d \<in> lower ` set (filter is_ascii t)" using d by (simp only: set_map)
    then obtain e where e: "d = lower e" "e \<in> set (filter is_ascii t)" by (rule imageE)
    then have "is_ascii e" by simp
    then show ?thesis using e(1) using cd w by (simp add: clean_char_def lower_lower lower_ascii)
  qed
qed

lemma clean_normalized: "normalized (clean nfkd t)"
proof (cases t)
  case None
  then show ?thesis by (simp add: clean_def normalized_def single_spaced_def)
next
  case (Some u)
  show ?thesis
  proof (cases "u = []")
    case True
    then show ?thesis using Some by (simp add: clean_def normalized_def single_spaced_def)
  next
    case False
    let ?t4 = "PUNCT_RE_sub (map lower (filter is_ascii (nfkd u)))"
    have r: "clean nfkd t = strip (sub_ws False ?t4)"
      using Some False by (simp add: clean_def Let_def)
    have ch: "clean_char c" if "c \<in> set (strip (sub_ws False ?t4))" for c
    proof -
      from that have "c \<in> set (sub_ws False ?t4)" by (rule strip_set)
      then have "c = 32 \<or> (c \<in> set ?t4 \<and> \<not> isspace c)" by (rule sub_ws_set)
      then show ?thesis using pipeline_chars [of c "nfkd u"] by (auto simp: clean_char_def)
    qed
    have ss: "single_spaced (strip (sub_ws False ?t4))"
      by (rule strip_single) (rule sub_ws_single)
    have en: "strip (sub_ws False ?t4) = []
              \<or> (hd (strip (sub_ws False ?t4)) \<noteq> 32 \<and> last (strip (sub_ws False ?t4)) \<noteq> 32)"
      using strip_ends [of "sub_ws False ?t4"] isspace_32 by metis
    show ?thesis unfolding r normalized_def using ch ss en by blast
  qed
qed

lemma clean_fixed:
  assumes nf: "\<And>s. \<forall>c \<in> set s. c < 128 \<Longrightarrow> nfkd s = s"
    and n: "normalized s"
  shows "clean nfkd (Some s) = s"
proof (cases "s = []")
  case True
  then show ?thesis by (simp add: clean_def)
next
  case False
  have ch: "\<forall>c \<in> set s. clean_char c" using n by (simp add: normalized_def)
  have asc: "\<forall>c \<in> set s. is_ascii c" using ch by (auto simp: clean_char_def is_ascii_def)
  have 1: "nfkd s = s" using nf asc by (simp add: is_ascii_def)
  have 2: "filter is_ascii s = s" using asc by simp
  have "\<forall>c \<in> set s. lower c = c" using ch by (auto simp: clean_char_def lower_def)
  then have 3: "map lower s = s" by (simp add: map_idI)
  have w: "\<forall>c \<in> set s. is_word c \<or> isspace c" using ch by (auto simp: clean_char_def)
  have 4: "PUNCT_RE_sub s = s" unfolding PUNCT_RE_sub_def
  proof (rule map_idI)
    fix c assume "c \<in> set s"
    then show "(if \<not> is_word c \<and> \<not> isspace c then 32 else c) = c" using w by auto
  qed
  have sp: "\<forall>c \<in> set s. isspace c \<longrightarrow> c = 32" using ch clean_char_space by blast
  have 5: "sub_ws False s = s"
    using sp n by (intro sub_ws_fixed) (simp_all add: normalized_def)
  have "\<not> isspace (hd s) \<and> \<not> isspace (last s)"
    using False n sp hd_in_set [OF False] last_in_set [OF False]
    by (auto simp: normalized_def)
  then have 6: "strip s = s" by (intro strip_fixed) simp
  show ?thesis using False by (simp add: clean_def Let_def 1 2 3 4 5 6)
qed

text \<open>
  C8. The text normaliser is idempotent, for every input (a string or \<open>None\<close>) and
  every normalisation \<open>nfkd\<close> that leaves ASCII strings unchanged, as NFKD does; it is
  a total function, and it maps \<open>None\<close> and the empty string to the empty string.
\<close>

theorem clean_idempotent:
  assumes "\<And>s. \<forall>c \<in> set s. c < 128 \<Longrightarrow> nfkd s = s"
  shows "clean nfkd (Some (clean nfkd t)) = clean nfkd t
       \<and> clean nfkd None = [] \<and> clean nfkd (Some []) = []"
proof -
  have "clean nfkd (Some (clean nfkd t)) = clean nfkd t"
    using assms clean_normalized by (rule clean_fixed)
  then show ?thesis by (simp add: clean_def)
qed

lemma nfkd_sample_ascii: "\<forall>c \<in> set s. c < 128 \<Longrightarrow> nfkd_sample s = s"
  unfolding nfkd_sample_def by (induction s) auto

theorem clean_idempotent_witness:
  "clean nfkd_sample (Some [32, 67, 97, 102, 233, 33, 33, 9, 28, 64257, 160, 95, 66, 46])
     = py ''cafe fi _b''
   \<and> clean nfkd_sample (Some (clean nfkd_sample
        (Some [32, 67, 97, 102, 233, 33, 33, 9, 28, 64257, 160, 95, 66, 46])))
     = py ''cafe fi _b''"
  using clean_idempotent [of nfkd_sample
          "Some [32, 67, 97, 102, 233, 33, 33, 9, 28, 64257, 160, 95, 66, 46]",
          OF nfkd_sample_ascii]
  by (simp add: clean_def nfkd_sample_def is_ascii_def lower_def PUNCT_RE_sub_def is_word_def
        isspace_def strip_def py_def)

section \<open>Properties of the history text and the prompt\<close>

text \<open>
  C10. \<open>format_history\<close> is the empty string for an empty memory and ends in a newline
  otherwise; and in the prompt that \<open>make_prompt\<close> builds from it, the text in front of
  the label \<open>CONTEXT:\<close> always ends in a newline, so the label starts a line of its own.
\<close>

theorem format_history_newline:
  "(memory c = [] \<longrightarrow> format_history c = [])
   \<and> (memory c \<noteq> [] \<longrightarrow> format_history c \<noteq> [] \<and> last (format_history c) = 10)
   \<and> (\<exists>pre post. make_prompt q ctx (format_history c)
                     = pre @ py ''CONTEXT:'' @ post
                   \<and> pre = SYSTEM @ [10, 10] @ format_history c
                   \<and> pre \<noteq> [] \<and> last pre = 10)"
proof -
  have a: "memory c = [] \<longrightarrow> format_history c = []"
    by (simp add: format_history_def)
  have b: "memory c \<noteq> [] \<longrightarrow> format_history c \<noteq> [] \<and> last (format_history c) = 10"
    by (simp add: format_history_def)
  have l: "last (SYSTEM @ [10, 10] @ format_history c) = 10"
    using b by (cases "memory c = []") (simp_all add: format_history_def)
  have p: "make_prompt q ctx (format_history c)
             = (SYSTEM @ [10, 10] @ format_history c) @ py ''CONTEXT:''
               @ ([10] @ join [10] ctx @ [10, 10] @ py ''Question: '' @ q @ [10] @ py ''Answer:'')"
    by (simp add: make_prompt_def Let_def)
  show ?thesis using a b l p by blast
qed

theorem format_history_newline_witness:
  "format_history (Conversation 3) = []
   \<and> format_history (add (Conversation 3) (py ''hi'') (py ''yo''))
       = py ''User: hi'' @ [10] @ py ''Assistant: yo'' @ [10]
   \<and> last (format_history (add (Conversation 3) (py ''hi'') (py ''yo''))) = 10"
  using format_history_newline [of "Conversation 3" "[]" "[]"]
        format_history_newline [of "add (Conversation 3) (py ''hi'') (py ''yo'')" "[]" "[]"]
  by (simp add: Conversation_def add_def Let_def format_history_def history_line_def py_def)

end
